theory Spec2Isabelle
  imports Complex_Main
begin

section \<open>Strings\<close>

text \<open>
  A JavaScript string is a sequence of UTF-16 code units. The matcher handles smart quotes
  (U+201C, U+201D) and combining marks (U+0300 to U+036F), which do not fit into a byte, so a
  string is modelled as the list of its code units, each a natural number. \<open>js\<close> turns an
  ASCII literal into that form.
\<close>

type_synonym jstring = "nat list"

definition js :: "string \<Rightarrow> jstring" where
  "js s = map of_char s"

text \<open>The character classes of the regular expressions (no \<open>u\<close> or \<open>i\<close> flag is used).\<close>

definition isDigit :: "nat \<Rightarrow> bool" where
  "isDigit c = (48 \<le> c \<and> c \<le> 57)"

text \<open>\<open>\w\<close> is \<open>[A-Za-z0-9_]\<close>.\<close>

definition isWordChar :: "nat \<Rightarrow> bool" where
  "isWordChar c = ((48 \<le> c \<and> c \<le> 57) \<or> (65 \<le> c \<and> c \<le> 90) \<or> c = 95 \<or> (97 \<le> c \<and> c \<le> 122))"

text \<open>\<open>\s\<close>: the white space and line terminator code units of ECMAScript.\<close>

definition isSpace :: "nat \<Rightarrow> bool" where
  "isSpace c = ((9 \<le> c \<and> c \<le> 13) \<or> c = 32 \<or> c = 160 \<or> c = 5760 \<or> (8192 \<le> c \<and> c \<le> 8202)
     \<or> c = 8232 \<or> c = 8233 \<or> c = 8239 \<or> c = 8287 \<or> c = 12288 \<or> c = 65279)"

text \<open>\<open>[\W_]\<close>: everything that is not a letter or digit of ASCII.\<close>

definition isSepChar :: "nat \<Rightarrow> bool" where
  "isSepChar c = (\<not> isWordChar c \<or> c = 95)"

text \<open>
  \<open>String.prototype.toLowerCase\<close> and \<open>normalize("NFD")\<close> are built-ins driven by the Unicode
  tables. They are modelled on ASCII and the Latin-1 supplement (code units below 256), which
  covers the two working languages of the stop-word list; a code unit outside that range is
  left as it is.
\<close>

definition lowerUnit :: "nat \<Rightarrow> nat" where
  "lowerUnit c = (if (65 \<le> c \<and> c \<le> 90) \<or> (192 \<le> c \<and> c \<le> 222 \<and> c \<noteq> 215) then c + 32 else c)"

definition toLowerCase :: "jstring \<Rightarrow> jstring" where
  "toLowerCase s = map lowerUnit s"

text \<open>
  The canonical decomposition of one code unit: base letter followed by the combining mark.
  The table is the one of the Latin-1 supplement, where the lower-case letter is 32 above the
  upper-case one.
\<close>

definition nfdLower :: "nat \<Rightarrow> (nat \<times> nat) option" where
  "nfdLower c =
    (if c = 224 then Some (97, 768) else if c = 225 then Some (97, 769)
     else if c = 226 then Some (97, 770) else if c = 227 then Some (97, 771)
     else if c = 228 then Some (97, 776) else if c = 229 then Some (97, 778)
     else if c = 231 then Some (99, 807)
     else if c = 232 then Some (101, 768) else if c = 233 then Some (101, 769)
     else if c = 234 then Some (101, 770) else if c = 235 then Some (101, 776)
     else if c = 236 then Some (105, 768) else if c = 237 then Some (105, 769)
     else if c = 238 then Some (105, 770) else if c = 239 then Some (105, 776)
     else if c = 241 then Some (110, 771)
     else if c = 242 then Some (111, 768) else if c = 243 then Some (111, 769)
     else if c = 244 then Some (111, 770) else if c = 245 then Some (111, 771)
     else if c = 246 then Some (111, 776)
     else if c = 249 then Some (117, 768) else if c = 250 then Some (117, 769)
     else if c = 251 then Some (117, 770) else if c = 252 then Some (117, 776)
     else if c = 253 then Some (121, 769) else if c = 255 then Some (121, 776)
     else None)"

definition nfdUnit :: "nat \<Rightarrow> jstring" where
  "nfdUnit c =
    (case nfdLower c of
       Some (b, m) \<Rightarrow> [b, m]
     | None \<Rightarrow>
        (if 192 \<le> c \<and> c \<le> 221 then
           (case nfdLower (c + 32) of Some (b, m) \<Rightarrow> [b - 32, m] | None \<Rightarrow> [c])
         else [c]))"

definition normalizeNFD :: "jstring \<Rightarrow> jstring" where
  "normalizeNFD s = concat (map nfdUnit s)"

text \<open>Removing the combining marks U+0300 to U+036F (the \<open>replace\<close> after \<open>normalize\<close>).\<close>

definition stripMarks :: "jstring \<Rightarrow> jstring" where
  "stripMarks s = filter (\<lambda>c. \<not> (768 \<le> c \<and> c \<le> 879)) s"

text \<open>
  \<open>replace(/[C]+/g, r)\<close> for a character class \<open>C\<close>: every maximal run of code units of the
  class is replaced by \<open>r\<close>.
\<close>

function replaceRuns :: "(nat \<Rightarrow> bool) \<Rightarrow> jstring \<Rightarrow> jstring \<Rightarrow> jstring" where
  "replaceRuns p r [] = []"
| "replaceRuns p r (c # cs) =
     (if p c then r @ replaceRuns p r (dropWhile p cs) else c # replaceRuns p r cs)"
  by pat_completeness auto
termination
  by (relation "measure (\<lambda>(p, r, s). length s)")
     (auto simp: less_Suc_eq_le length_dropWhile_le)

text \<open>
  \<open>split(/[C]+/)\<close>: the pieces between the maximal runs of the class; a run at either end
  leaves an empty piece there, and the empty string gives one empty piece.
\<close>

function splitRuns :: "(nat \<Rightarrow> bool) \<Rightarrow> jstring \<Rightarrow> jstring list" where
  "splitRuns p s =
     (let w = takeWhile (\<lambda>c. \<not> p c) s; rest = dropWhile (\<lambda>c. \<not> p c) s
      in if rest = [] then [w] else w # splitRuns p (dropWhile p (tl rest)))"
  by pat_completeness auto
termination
proof (relation "measure (\<lambda>(p, s). length s)")
  fix p :: "nat \<Rightarrow> bool" and s w rest :: jstring
  assume rest: "rest = dropWhile (\<lambda>c. \<not> p c) s" and ne: "rest \<noteq> []"
  have "length (dropWhile p (tl rest)) \<le> length (tl rest)"
    by (rule length_dropWhile_le)
  also have "\<dots> < length rest"
    using ne by (cases rest) simp_all
  also have "\<dots> \<le> length s"
    unfolding rest by (rule length_dropWhile_le)
  finally show "((p, dropWhile p (tl rest)), (p, s)) \<in> measure (\<lambda>(p, s). length s)"
    by simp
qed simp

text \<open>
  \<open>split(/[C]/)\<close> and \<open>split('.')\<close>: the pieces between the single separators; two
  separators in a row leave an empty piece between them.
\<close>

fun splitEach :: "(nat \<Rightarrow> bool) \<Rightarrow> jstring \<Rightarrow> jstring list" where
  "splitEach p [] = [[]]"
| "splitEach p (c # cs) =
     (if p c then [] # splitEach p cs
      else (case splitEach p cs of w # ws \<Rightarrow> (c # w) # ws | [] \<Rightarrow> [[c]]))"

text \<open>\<open>String.prototype.trim\<close>\<close>

definition trim :: "jstring \<Rightarrow> jstring" where
  "trim s = rev (dropWhile isSpace (rev (dropWhile isSpace s)))"

text \<open>\<open>String.prototype.includes\<close>: the needle occurs as a contiguous substring.\<close>

fun startsWith :: "jstring \<Rightarrow> jstring \<Rightarrow> bool" where
  "startsWith s [] = True"
| "startsWith [] (n # ns) = False"
| "startsWith (c # cs) (n # ns) = (c = n \<and> startsWith cs ns)"

fun strIncludes :: "jstring \<Rightarrow> jstring \<Rightarrow> bool" where
  "strIncludes [] n = (n = [])"
| "strIncludes (c # cs) n = (startsWith (c # cs) n \<or> strIncludes cs n)"

text \<open>\<open>padStart(2, '0')\<close>\<close>

definition padStart2 :: "jstring \<Rightarrow> jstring" where
  "padStart2 s = replicate (2 - length s) 48 @ s"

section \<open>The tokenizer\<close>

definition IGNORED_TOKENS :: "jstring list" where
  "IGNORED_TOKENS = map js
    [''fw'', ''fwd'', ''re'', ''enc'', ''tr'', ''subject'', ''assunto'', ''encaminhado'', ''copy'', ''copia'',
     ''de'', ''do'', ''da'', ''dos'', ''das'', ''e'', ''o'', ''a'', ''os'', ''as'', ''em'', ''na'', ''no'', ''nas'',
     ''nos'', ''com'', ''para'', ''por'',
     ''of'', ''the'', ''and'', ''in'', ''at'', ''to'', ''for'', ''with'', ''by'', ''from'']"

definition normalizeText :: "jstring \<Rightarrow> jstring" where
  "normalizeText s = replaceRuns isSepChar [32] (stripMarks (normalizeNFD (toLowerCase s)))"

definition tokenize :: "jstring \<Rightarrow> jstring list" where
  "tokenize s =
     filter (\<lambda>t. t \<notin> set IGNORED_TOKENS)
       (filter (\<lambda>t. length t > 0) (splitRuns isSpace (normalizeText s)))"

section \<open>Data model\<close>

text \<open>The opaque browser \<open>File\<close> object behind a node; only its identity matters here.\<close>

type_synonym handle = nat

record FileNode =
  name :: jstring
  path :: jstring
  lastModified :: nat
  fileObject :: "handle option"

datatype MatchStatus = FOUND | NOT_FOUND | AMBIGUOUS | NO_QUERY

section \<open>Metadata extraction\<close>

text \<open>
  \<open>QUOTE_REGEX\<close> is an opening quote (straight or U+201C), one or more code units that are
  neither a straight quote nor U+201D, and a closing quote (straight or U+201D). The middle
  part is greedy, so it takes the whole run up to the next closing quote; when the run is
  empty or reaches the end of the text no shorter run helps, and there is no match at this
  position. After a match the search goes on behind it (\<open>lastIndex\<close>).
\<close>

definition isOpenQuote :: "nat \<Rightarrow> bool" where
  "isOpenQuote c = (c = 34 \<or> c = 8220)"

definition isCloseQuote :: "nat \<Rightarrow> bool" where
  "isCloseQuote c = (c = 34 \<or> c = 8221)"

function scanQuotes :: "jstring \<Rightarrow> jstring list" where
  "scanQuotes [] = []"
| "scanQuotes (c # cs) =
     (let body = takeWhile (\<lambda>x. \<not> isCloseQuote x) cs;
          rest = dropWhile (\<lambda>x. \<not> isCloseQuote x) cs
      in if isOpenQuote c \<and> body \<noteq> [] \<and> rest \<noteq> [] then body # scanQuotes (tl rest)
         else scanQuotes cs)"
  by pat_completeness auto
termination
proof (relation "measure length")
  fix c :: nat and cs body rest :: jstring
  assume rest: "rest = dropWhile (\<lambda>x. \<not> isCloseQuote x) cs"
  have "length (tl rest) \<le> length rest"
    by simp
  also have "\<dots> \<le> length cs"
    unfolding rest by (rule length_dropWhile_le)
  finally show "(tl rest, c # cs) \<in> measure length"
    by simp
qed simp_all

text \<open>
  \<open>DATE_REGEX\<close> has two alternatives, tried in order at every position, each between two
  word boundaries. A step of the backtracking matcher maps a remaining text to the list of
  the texts that may remain after the step, in the order in which the engine tries them:
  \<open>\d{1,2}\<close> tries two digits before one.
\<close>

definition isDateSep :: "nat \<Rightarrow> bool" where
  "isDateSep c = (c = 47 \<or> c = 45 \<or> c = 46)"

definition digitsN :: "nat \<Rightarrow> jstring \<Rightarrow> jstring list" where
  "digitsN n r = (if n \<le> length r \<and> list_all isDigit (take n r) then [drop n r] else [])"

definition digits12 :: "jstring \<Rightarrow> jstring list" where
  "digits12 r = digitsN 2 r @ digitsN 1 r"

definition dateSep :: "jstring \<Rightarrow> jstring list" where
  "dateSep r = (case r of [] \<Rightarrow> [] | c # cs \<Rightarrow> if isDateSep c then [cs] else [])"

text \<open>The closing \<open>\b\<close> stands behind a digit: the text ends or goes on with no word character.\<close>

definition wordEnd :: "jstring \<Rightarrow> jstring list" where
  "wordEnd r = (case r of [] \<Rightarrow> [r] | c # cs \<Rightarrow> if isWordChar c then [] else [r])"

definition dateDayFirst :: "jstring \<Rightarrow> jstring list" where
  "dateDayFirst r =
     concat (map wordEnd (concat (map (digitsN 4) (concat (map dateSep
       (concat (map digits12 (concat (map dateSep (digits12 r))))))))))"

definition dateYearFirst :: "jstring \<Rightarrow> jstring list" where
  "dateYearFirst r =
     concat (map wordEnd (concat (map digits12 (concat (map dateSep
       (concat (map digits12 (concat (map dateSep (digitsN 4 r))))))))))"

text \<open>
  The length of the match of \<open>DATE_REGEX\<close> at a position, given the code unit before it.
  The opening \<open>\b\<close> stands before a digit, so it asks for no word character before.
\<close>

definition matchDate :: "nat option \<Rightarrow> jstring \<Rightarrow> nat option" where
  "matchDate prev r =
     (if (case prev of None \<Rightarrow> False | Some p \<Rightarrow> isWordChar p) then None
      else (case dateDayFirst r @ dateYearFirst r of
              [] \<Rightarrow> None
            | rest # others \<Rightarrow> Some (length r - length rest)))"

fun scanDates :: "nat option \<Rightarrow> jstring \<Rightarrow> jstring list" where
  "scanDates prev [] = []"
| "scanDates prev (c # cs) =
     (case matchDate prev (c # cs) of
        None \<Rightarrow> scanDates (Some c) cs
      | Some n \<Rightarrow> take n (c # cs) # scanDates (Some (last (take n (c # cs)))) (drop (n - 1) cs))"

record Metadata =
  queries :: "jstring list"
  dates :: "jstring list"

definition extractMetadata :: "jstring \<Rightarrow> Metadata" where
  "extractMetadata cellContent =
     \<lparr> queries = map trim (filter (\<lambda>m. m \<noteq> [] \<and> length (trim m) > 0) (scanQuotes cellContent)),
       dates = scanDates None cellContent \<rparr>"

section \<open>Date permutations\<close>

definition isPermSep :: "nat \<Rightarrow> bool" where
  "isPermSep c = (c = 47 \<or> c = 45 \<or> c = 46 \<or> isSpace c)"

definition dateVariants :: "jstring \<Rightarrow> jstring \<Rightarrow> jstring \<Rightarrow> jstring list" where
  "dateVariants day month year =
     [day @ month @ year,
      year @ month @ day,
      day @ [45] @ month @ [45] @ year,
      year @ [45] @ month @ [45] @ day,
      year @ [95] @ month @ [95] @ day,
      year @ [46] @ month @ [46] @ day,
      day @ [95] @ month @ [95] @ year,
      day @ [46] @ month @ [46] @ year,
      day @ [32] @ month @ [32] @ year]"

definition getDatePermutations :: "jstring \<Rightarrow> jstring list" where
  "getDatePermutations dateStr =
     (let parts = splitEach isPermSep dateStr;
          cleanParts = filter (\<lambda>p. length p > 0) parts
      in case cleanParts of
           [p0, p1, p2] \<Rightarrow>
             (if length p0 = 4 then dateVariants (padStart2 p2) (padStart2 p1) p0
              else dateVariants (padStart2 p0) (padStart2 p1) p2)
         | _ \<Rightarrow> [dateStr])"

section \<open>Scoring and classification\<close>

text \<open>
  Scores are JavaScript numbers; the model computes them as exact rationals, so \<open>0.55\<close> is
  \<open>11/20\<close> and no rounding takes place.
\<close>

record Candidate =
  cfile :: FileNode
  score :: rat

record MatchResult =
  status :: MatchStatus
  resultFile :: "FileNode option"
  resultCandidates :: "FileNode list option"

text \<open>The part behind the last dot, lower-cased: \<open>split('.').pop()?.toLowerCase()\<close>.\<close>

definition extensionOf :: "jstring \<Rightarrow> jstring" where
  "extensionOf s = toLowerCase (last (splitEach (\<lambda>c. c = 46) s))"

definition baseScore :: "jstring list \<Rightarrow> jstring list \<Rightarrow> rat" where
  "baseScore queryTokens fileTokens =
     (let intersection = filter (\<lambda>qt. qt \<in> set fileTokens) queryTokens;
          matchCount = length intersection;
          fileCoverage = of_nat matchCount / of_nat (length fileTokens);
          queryCoverage = of_nat matchCount / of_nat (length queryTokens)
      in max fileCoverage queryCoverage)"

definition dateMatch :: "jstring list \<Rightarrow> FileNode \<Rightarrow> bool" where
  "dateMatch dateSearchTerms f =
     (let cleanFileName = filter isDigit (name f)
      in list_ex (\<lambda>term. let cleanTerm = filter isDigit term
                         in strIncludes cleanFileName cleanTerm \<and> length cleanTerm \<ge> 6)
           dateSearchTerms)"

definition extensionMatch :: "jstring \<Rightarrow> FileNode \<Rightarrow> bool" where
  "extensionMatch query f =
     (let queryExt = extensionOf query; fileExt = extensionOf (name f)
      in queryExt \<noteq> [] \<and> fileExt \<noteq> [] \<and> queryExt = fileExt \<and> length queryExt > 2)"

definition sequenceMatch :: "jstring \<Rightarrow> FileNode \<Rightarrow> bool" where
  "sequenceMatch query f =
     (let normQuery = replaceRuns isSepChar [] (toLowerCase query);
          normFile = replaceRuns isSepChar [] (toLowerCase (name f))
      in strIncludes normFile normQuery)"

text \<open>
  The body of the inner loop for one query and one file: \<open>None\<close> where the source says
  \<open>continue\<close> before a score exists, else the score with its boosts.
\<close>

definition scoreFile :: "jstring \<Rightarrow> jstring list \<Rightarrow> jstring list \<Rightarrow> FileNode \<Rightarrow> rat option" where
  "scoreFile query queryTokens dateSearchTerms f =
     (let fileTokens = tokenize (name f)
      in if length fileTokens = 0 then None
         else if length (filter (\<lambda>qt. qt \<in> set fileTokens) queryTokens) = 0 then None
         else Some (baseScore queryTokens fileTokens
                    + (if dateMatch dateSearchTerms f then 2 / 5 else 0)
                    + (if extensionMatch query f then 1 / 5 else 0)
                    + (if sequenceMatch query f then 3 / 20 else 0)))"

definition candidatesOfFile :: "jstring \<Rightarrow> jstring list \<Rightarrow> jstring list \<Rightarrow> FileNode \<Rightarrow> Candidate list" where
  "candidatesOfFile query queryTokens dateSearchTerms f =
     (case scoreFile query queryTokens dateSearchTerms f of
        None \<Rightarrow> []
      | Some sc \<Rightarrow> if sc \<ge> 11 / 20 then [\<lparr> cfile = f, score = sc \<rparr>] else [])"

definition candidatesOfQuery :: "jstring list \<Rightarrow> FileNode list \<Rightarrow> jstring \<Rightarrow> Candidate list" where
  "candidatesOfQuery dateSearchTerms availableFiles query =
     (let queryTokens = tokenize query
      in if length queryTokens = 0 then []
         else concat (map (candidatesOfFile query queryTokens dateSearchTerms) availableFiles))"

text \<open>
  \<open>uniqueCandidates\<close> is a \<open>Map\<close> from path to candidate. A \<open>Map\<close> keeps its keys in the
  order of their first insertion, and \<open>set\<close> on a present key replaces the value in place;
  it is an association list here.
\<close>

type_synonym candidateMap = "(jstring \<times> Candidate) list"

fun mapSet :: "jstring \<Rightarrow> Candidate \<Rightarrow> candidateMap \<Rightarrow> candidateMap" where
  "mapSet k v [] = [(k, v)]"
| "mapSet k v ((k', v') # m) = (if k' = k then (k, v) # m else (k', v') # mapSet k v m)"

definition dedupStep :: "Candidate \<Rightarrow> candidateMap \<Rightarrow> candidateMap" where
  "dedupStep c m =
     (case map_of m (path (cfile c)) of
        None \<Rightarrow> mapSet (path (cfile c)) c m
      | Some existing \<Rightarrow> if score c > score existing then mapSet (path (cfile c)) c m else m)"

definition deduplicate :: "Candidate list \<Rightarrow> Candidate list" where
  "deduplicate allCandidates = map snd (fold dedupStep allCandidates [])"

text \<open>
  \<open>sort((a, b) => b.score - a.score)\<close>: descending by score, and stable as
  \<open>Array.prototype.sort\<close> is; \<open>sort_key\<close> is the stable insertion sort.
\<close>

definition sortCandidates :: "Candidate list \<Rightarrow> Candidate list" where
  "sortCandidates cs = sort_key (\<lambda>c. - score c) cs"

text \<open>The decision on the sorted survivors, the last part of \<open>findBestMatch\<close>.\<close>

definition classify :: "Candidate list \<Rightarrow> MatchResult" where
  "classify sortedCandidates =
     (case sortedCandidates of
        [] \<Rightarrow> \<lparr> status = NOT_FOUND, resultFile = None, resultCandidates = None \<rparr>
      | best # others \<Rightarrow>
          (if score best > 6 / 5 \<or> others = [] \<or> score best > score (hd others) + 1 / 10
           then \<lparr> status = FOUND, resultFile = Some (cfile best), resultCandidates = None \<rparr>
           else \<lparr> status = AMBIGUOUS, resultFile = None,
                  resultCandidates = Some (map cfile (take 5 sortedCandidates)) \<rparr>))"

definition findBestMatch :: "jstring list \<Rightarrow> jstring list \<Rightarrow> FileNode list \<Rightarrow> MatchResult" where
  "findBestMatch qs ds availableFiles =
     (if length qs = 0 then \<lparr> status = NO_QUERY, resultFile = None, resultCandidates = None \<rparr>
      else
        let dateSearchTerms = concat (map getDatePermutations ds);
            allCandidates = concat (map (candidatesOfQuery dateSearchTerms availableFiles) qs)
        in classify (sortCandidates (deduplicate allCandidates)))"

section \<open>Row records and the session\<close>

text \<open>
  \<open>AnalysisResult\<close>, with the optional fields as options. The type of the file nodes a
  record refers to is a parameter: the nodes themselves where only their values matter, and
  references into a store where the code writes to the shared node objects.
\<close>

record 'f AnalysisResult =
  rowId :: nat
  originalContent :: jstring
  targetFolder :: "jstring option"
  extractedQueries :: "jstring list"
  extractedDates :: "jstring list"
  matchStatus :: MatchStatus
  matchedFile :: "'f option"
  candidates :: "'f list option"
  aiSuggestion :: "jstring option"
  manualResolutions :: "'f list option"
  isIgnored :: "bool option"

datatype AppStep = UPLOAD | PREVIEW | PROCESSING | RESULTS

subsection \<open>Reconciliation\<close>

text \<open>
  \<open>reconcileFiles\<close> assigns to the \<open>fileObject\<close> field of node objects that several records
  (and several fields of one record) may share. The nodes live in a store, a record holds
  references, and an assignment updates the store at the reference.
\<close>

type_synonym ref = nat

type_synonym store = "ref \<Rightarrow> FileNode"

text \<open>
  \<open>if (!node.fileObject) { const f = fileSource.get(node.path); if (f) node.fileObject = f; }\<close>
\<close>

definition attach :: "(jstring \<rightharpoonup> handle) \<Rightarrow> ref \<Rightarrow> store \<Rightarrow> store" where
  "attach fileSource r st =
     (if fileObject (st r) = None then
        (case fileSource (path (st r)) of
           Some f \<Rightarrow> st(r := (st r)\<lparr>fileObject := Some f\<rparr>)
         | None \<Rightarrow> st)
      else st)"

definition reconcileResult :: "(jstring \<rightharpoonup> handle) \<Rightarrow> ref AnalysisResult \<Rightarrow> store \<Rightarrow> store" where
  "reconcileResult fileSource res st =
     (let st1 = (case matchedFile res of Some r \<Rightarrow> attach fileSource r st | None \<Rightarrow> st);
          st2 = (case manualResolutions res of
                   Some mrs \<Rightarrow> fold (attach fileSource) mrs st1
                 | None \<Rightarrow> st1);
          st3 = (case candidates res of
                   Some cs \<Rightarrow> fold (attach fileSource) cs st2
                 | None \<Rightarrow> st2)
      in st3)"

record AppState =
  results :: "ref AnalysisResult list"
  nodes :: store
  step :: AppStep

definition reconcileFiles :: "ref AnalysisResult list \<Rightarrow> (jstring \<rightharpoonup> handle) \<Rightarrow> AppState \<Rightarrow> AppState" where
  "reconcileFiles currentResults fileSource s =
     (let updatedResults = currentResults;
          st = fold (reconcileResult fileSource) currentResults (nodes s)
      in s\<lparr> results := updatedResults, nodes := st,
             step := (if length updatedResults > 0 then RESULTS else step s) \<rparr>)"

text \<open>
  Two notions for stating and proving what reconciliation does: the effect of \<open>attach\<close> on
  one node, and the references a record holds.
\<close>

definition attached :: "(jstring \<rightharpoonup> handle) \<Rightarrow> FileNode \<Rightarrow> FileNode" where
  "attached fileSource n =
     (if fileObject n = None then
        (case fileSource (path n) of Some f \<Rightarrow> n\<lparr>fileObject := Some f\<rparr> | None \<Rightarrow> n)
      else n)"

definition refsOf :: "ref AnalysisResult \<Rightarrow> ref set" where
  "refsOf res =
     set_option (matchedFile res)
     \<union> (case manualResolutions res of Some mrs \<Rightarrow> set mrs | None \<Rightarrow> {})
     \<union> (case candidates res of Some cs \<Rightarrow> set cs | None \<Rightarrow> {})"

subsection \<open>Loading a saved session\<close>

text \<open>
  A record of a saved session is parsed from JSON, so it holds node values and no
  \<open>fileObject\<close>; an old save may carry the singular field \<open>manualResolution\<close>. The body of the
  \<open>map\<close> in \<open>handleLoadProject\<close>:
\<close>

record 'f SavedResult = "'f AnalysisResult" +
  manualResolution :: "'f option"

definition migrateResult :: "'f SavedResult \<Rightarrow> 'f SavedResult" where
  "migrateResult r =
     (let r1 = (case manualResolution r of
                  Some m \<Rightarrow>
                    (if manualResolutions r = None \<or> manualResolutions r = Some []
                     then r\<lparr>manualResolutions := Some [m]\<rparr> else r)
                | None \<Rightarrow> r);
          r2 = (case manualResolutions r1 of
                  Some (x # xs) \<Rightarrow> r1\<lparr>matchStatus := FOUND\<rparr>
                | Some [] \<Rightarrow> r1
                | None \<Rightarrow> r1)
      in r2)"

text \<open>The list that \<open>handleLoadProject\<close> stores as the session's results.\<close>

definition migratedResults :: "'f SavedResult list \<Rightarrow> 'f SavedResult list" where
  "migratedResults rs = map migrateResult rs"

subsection \<open>Writing the spreadsheet\<close>

text \<open>
  A cell holds a string, a hyperlink object (display text \<open>v\<close>, \<open>Target\<close>, \<open>Tooltip\<close>) or some
  other value of the sheet that was read. A JavaScript array may have holes and grows when
  an index behind its end is assigned, so a row is a list of optional cells, and the sheet
  is a list of optional rows.
\<close>

datatype Cell = StrCell jstring | LinkCell jstring jstring jstring | OtherCell nat

type_synonym sheetRow = "Cell option list"

type_synonym sheet = "sheetRow option list"

definition getIndex :: "'a option list \<Rightarrow> nat \<Rightarrow> 'a option" where
  "getIndex xs i = (if i < length xs then xs ! i else None)"

definition setIndex :: "'a option list \<Rightarrow> nat \<Rightarrow> 'a \<Rightarrow> 'a option list" where
  "setIndex xs i v =
     (if i < length xs then xs[i := Some v]
      else xs @ replicate (i - length xs) None @ [Some v])"

text \<open>\<open>Array.prototype.join\<close>\<close>

fun joinWith :: "jstring \<Rightarrow> jstring list \<Rightarrow> jstring" where
  "joinWith sep [] = []"
| "joinWith sep [x] = x"
| "joinWith sep (x # y # ys) = x @ sep @ joinWith sep (y # ys)"

definition finalFilesOf :: "FileNode AnalysisResult \<Rightarrow> FileNode list" where
  "finalFilesOf res =
     (case manualResolutions res of
        Some (m # ms) \<Rightarrow> m # ms
      | Some [] \<Rightarrow> (case matchedFile res of Some f \<Rightarrow> [f] | None \<Rightarrow> [])
      | None \<Rightarrow> (case matchedFile res of Some f \<Rightarrow> [f] | None \<Rightarrow> []))"

text \<open>
  What the writer puts into column index 3 for one record, \<open>None\<close> when it assigns nothing.
  The three literals are \<open>(M\<close>u-acute\<open>ltiplos) \<close>, \<open>AMB\<close>I-acute\<open>GUO: \<close> and the failure marker.
\<close>

definition cellValueFor :: "FileNode AnalysisResult \<Rightarrow> Cell option" where
  "cellValueFor res =
     (let finalFiles = finalFilesOf res
      in if length finalFiles > 0 then
           (let fileNames = joinWith (js '', '') (map name finalFiles);
                primaryFile = hd finalFiles;
                relativePath = path primaryFile
            in Some (LinkCell
                 (if length finalFiles > 1 then js ''(M'' @ [250] @ js ''ltiplos) '' @ fileNames
                  else fileNames)
                 relativePath
                 (if length finalFiles > 1
                  then js ''Abre: '' @ name primaryFile @ js ''. (Outros ficheiros listados no texto)''
                  else js ''Abrir ficheiro local: '' @ name primaryFile)))
         else if matchStatus res = AMBIGUOUS \<and> length finalFiles = 0 then
           (let candidateNames = (case candidates res of
                                    Some cs \<Rightarrow> joinWith (js '', '') (map name cs)
                                  | None \<Rightarrow> [])
            in Some (StrCell (js ''AMB'' @ [205] @ js ''GUO: '' @ candidateNames)))
         else if matchStatus res = NOT_FOUND \<and> isIgnored res \<noteq> Some True then
           Some (StrCell (js ''FALHA - Verificar Manualmente''))
         else None)"

text \<open>
  One round of the \<open>forEach\<close>. \<open>rowId\<close> is the row index plus one; for a \<open>rowId\<close> of 0 the
  index is -1, which names no element of the array, and the sheet stays as it is.
\<close>

definition writeResult :: "FileNode AnalysisResult \<Rightarrow> sheet \<Rightarrow> sheet" where
  "writeResult res newData =
     (if rowId res = 0 then newData
      else
        let rowIndex = rowId res - 1;
            withRow = (if getIndex newData rowIndex = None then setIndex newData rowIndex []
                       else newData)
        in case cellValueFor res of
             None \<Rightarrow> withRow
           | Some v \<Rightarrow>
               (case getIndex withRow rowIndex of
                  Some r \<Rightarrow> setIndex withRow rowIndex (setIndex r 3 v)
                | None \<Rightarrow> withRow))"

text \<open>The sheet that \<open>generateAndDownloadExcel\<close> hands to the workbook writer.\<close>

definition generateExcelData :: "sheet \<Rightarrow> FileNode AnalysisResult list \<Rightarrow> sheet" where
  "generateExcelData originalData rs = fold writeResult rs originalData"

section \<open>Notions used in the statements and proofs\<close>

text \<open>
  The invariant of the deduplication loop, between the candidates seen so far and the map:
  the keys are distinct, they are the paths seen, and every entry is a candidate seen, filed
  under its own path, that no candidate seen with that path outscores.
\<close>

definition dedupInv :: "Candidate list \<Rightarrow> candidateMap \<Rightarrow> bool" where
  "dedupInv cs m \<longleftrightarrow>
     distinct (map fst m) \<and>
     fst ` set m = (\<lambda>c. path (cfile c)) ` set cs \<and>
     (\<forall>k v. (k, v) \<in> set m \<longrightarrow> k = path (cfile v) \<and> v \<in> set cs \<and>
        (\<forall>c \<in> set cs. path (cfile c) = k \<longrightarrow> score c \<le> score v))"

text \<open>
  A quoted substring of a text, in the words of the specification: an opening quote, at
  least one code unit that is no closing quote, and a closing quote further on.
\<close>

fun hasQuotedSubstring :: "jstring \<Rightarrow> bool" where
  "hasQuotedSubstring [] = False"
| "hasQuotedSubstring (c # cs) =
     ((isOpenQuote c \<and> cs \<noteq> [] \<and> \<not> isCloseQuote (hd cs) \<and> list_ex isCloseQuote cs)
      \<or> hasQuotedSubstring cs)"

text \<open>The store after \<open>attach\<close> has run on every reference of a set.\<close>

definition attachAll :: "(jstring \<rightharpoonup> handle) \<Rightarrow> ref set \<Rightarrow> store \<Rightarrow> store" where
  "attachAll fileSource A st = (\<lambda>r. if r \<in> A then attached fileSource (st r) else st r)"

section \<open>Example data\<close>

definition exNode :: "string \<Rightarrow> string \<Rightarrow> FileNode" where
  "exNode n p = \<lparr> name = js n, path = js p, lastModified = 0, fileObject = None \<rparr>"

text \<open>
  The cell text \<open>Email "Relat\<close>o-acute\<open>rio Final" de 20/04/2010\<close> (with straight quotes),
  its quoted phrase, and the file name \<open>RE_Relatorio_Final_20042010.pdf\<close>.
\<close>

definition exCell :: jstring where
  "exCell = js ''Email '' @ [34] @ js ''Relat'' @ [243] @ js ''rio Final'' @ [34] @ js '' de 20/04/2010''"

definition exQuery :: jstring where
  "exQuery = js ''Relat'' @ [243] @ js ''rio Final''"

definition exFileName :: jstring where
  "exFileName = js ''RE_Relatorio_Final_20042010.pdf''"

text \<open>
  A reloaded session of one ambiguous row: the matched file and the first candidate are the
  same node (reference 0, no handle), the second candidate (reference 1) has its handle
  already, and the manual resolution (reference 2) has a path that the folder does not hold.
\<close>

definition exStore :: store where
  "exStore r =
     (if r = 0 then \<lparr> name = js ''a.pdf'', path = js ''P/a.pdf'', lastModified = 0, fileObject = None \<rparr>
      else if r = 1 then \<lparr> name = js ''b.pdf'', path = js ''P/b.pdf'', lastModified = 0, fileObject = Some 7 \<rparr>
      else \<lparr> name = js ''c.pdf'', path = js ''P/c.pdf'', lastModified = 0, fileObject = None \<rparr>)"

definition exRefResult :: "ref AnalysisResult" where
  "exRefResult =
     \<lparr> rowId = 4, originalContent = exCell, targetFolder = Some (js ''Ponto 1''),
       extractedQueries = [exQuery], extractedDates = [js ''20/04/2010''],
       matchStatus = AMBIGUOUS, matchedFile = Some 0, candidates = Some [0, 1],
       aiSuggestion = None, manualResolutions = Some [2], isIgnored = None \<rparr>"

definition exSource :: "jstring \<rightharpoonup> handle" where
  "exSource = [js ''P/a.pdf'' \<mapsto> 5, js ''P/b.pdf'' \<mapsto> 6]"

definition exState :: AppState where
  "exState = \<lparr> results = [exRefResult], nodes = exStore, step = UPLOAD \<rparr>"

text \<open>
  A record of an old save: ambiguous, with the singular manual resolution and no list.
\<close>

definition exLegacy :: "FileNode SavedResult" where
  "exLegacy =
     \<lparr> rowId = 4, originalContent = exCell, targetFolder = Some (js ''Ponto 1''),
       extractedQueries = [exQuery], extractedDates = [js ''20/04/2010''],
       matchStatus = AMBIGUOUS, matchedFile = None,
       candidates = Some [exNode ''a.pdf'' ''P/a.pdf'', exNode ''b.pdf'' ''P/b.pdf''],
       aiSuggestion = None, manualResolutions = None, isIgnored = None,
       manualResolution = Some (exNode ''b.pdf'' ''P/b.pdf'') \<rparr>"

text \<open>The cell of a sheet at a row and column index, \<open>None\<close> where nothing is stored.\<close>

definition cellAt :: "sheet \<Rightarrow> nat \<Rightarrow> nat \<Rightarrow> Cell option" where
  "cellAt sh i j = (case getIndex sh i of Some r \<Rightarrow> getIndex r j | None \<Rightarrow> None)"

text \<open>
  An ambiguous row with two candidates and no resolution that the user has set to ignored
  (the table offers the ignore button on ambiguous rows), and a sheet of four rows whose
  fourth row holds a note in column index 3.
\<close>

definition exIgnoredAmbiguous :: "FileNode AnalysisResult" where
  "exIgnoredAmbiguous =
     \<lparr> rowId = 4, originalContent = exCell, targetFolder = Some (js ''Ponto 1''),
       extractedQueries = [exQuery], extractedDates = [js ''20/04/2010''],
       matchStatus = AMBIGUOUS, matchedFile = None,
       candidates = Some [exNode ''a.pdf'' ''P/a.pdf'', exNode ''b.pdf'' ''P/b.pdf''],
       aiSuggestion = None, manualResolutions = None, isIgnored = Some True \<rparr>"

definition exSheet :: sheet where
  "exSheet =
     [Some [], Some [], Some [],
      Some [Some (OtherCell 1), Some (OtherCell 2), Some (StrCell exCell), Some (StrCell (js ''nota''))]]"

section \<open>Splitting a string\<close>

lemma splitEach_no_separator: "\<forall>c \<in> set s. \<not> p c \<Longrightarrow> splitEach p s = [s]"
  by (induction s) simp_all

section \<open>The margin rule of the classifier\<close>





section \<open>Evaluation on concrete inputs\<close>

text \<open>The defining equations that the simplifier unfolds to run the matcher on a given text.\<close>

lemmas char_class_defs = js_def isDigit_def isWordChar_def isSpace_def isSepChar_def
  isOpenQuote_def isCloseQuote_def isDateSep_def isPermSep_def

lemmas tokenize_defs = lowerUnit_def toLowerCase_def nfdLower_def nfdUnit_def normalizeNFD_def
  stripMarks_def IGNORED_TOKENS_def normalizeText_def tokenize_def

lemmas extract_defs = trim_def digitsN_def digits12_def dateSep_def wordEnd_def dateDayFirst_def
  dateYearFirst_def matchDate_def extractMetadata_def

lemmas permutation_defs = padStart2_def dateVariants_def getDatePermutations_def

lemmas scoring_defs = extensionOf_def baseScore_def dateMatch_def extensionMatch_def
  sequenceMatch_def scoreFile_def candidatesOfFile_def candidatesOfQuery_def

lemmas classifier_defs = dedupStep_def deduplicate_def sortCandidates_def classify_def
  findBestMatch_def

section \<open>The scenario of the dated report\<close>

lemma exCell_metadata:
  "extractMetadata exCell = \<lparr> queries = [exQuery], dates = [js ''20/04/2010''] \<rparr>"
  by (simp add: exCell_def exQuery_def char_class_defs extract_defs)

lemma exQuery_tokens: "tokenize exQuery = [js ''relatorio'', js ''final'']"
  by (simp add: exQuery_def char_class_defs tokenize_defs)

lemma exFileName_tokens:
  "tokenize exFileName = [js ''relatorio'', js ''final'', js ''20042010'', js ''pdf'']"
  by (simp add: exFileName_def char_class_defs tokenize_defs)

lemma exDate_permutations:
  "getDatePermutations (js ''20/04/2010'') =
     [js ''20042010'', js ''20100420'', js ''20-04-2010'', js ''2010-04-20'', js ''2010_04_20'',
      js ''2010.04.20'', js ''20_04_2010'', js ''20.04.2010'', js ''20 04 2010'']"
  by (simp add: char_class_defs permutation_defs)

lemma exFile_dateMatch:
  "name f = exFileName \<Longrightarrow> dateMatch (getDatePermutations (js ''20/04/2010'')) f"
  by (simp add: exDate_permutations) (simp add: dateMatch_def exFileName_def char_class_defs)

lemma exFile_extensionMatch: "name f = exFileName \<Longrightarrow> \<not> extensionMatch exQuery f"
  by (simp add: extensionMatch_def extensionOf_def exQuery_def exFileName_def js_def
      toLowerCase_def lowerUnit_def)

lemma exFile_sequenceMatch: "name f = exFileName \<Longrightarrow> \<not> sequenceMatch exQuery f"
  by (simp add: sequenceMatch_def exQuery_def exFileName_def char_class_defs
      toLowerCase_def lowerUnit_def)

lemma exFile_score:
  assumes "name f = exFileName"
  shows "scoreFile exQuery (tokenize exQuery) (getDatePermutations (js ''20/04/2010'')) f = Some (7 / 5)"
proof -
  have "baseScore (tokenize exQuery) (tokenize exFileName) = 1"
    by (simp add: exQuery_tokens exFileName_tokens baseScore_def js_def)
  moreover have "filter (\<lambda>qt. qt \<in> set (tokenize exFileName)) (tokenize exQuery) \<noteq> []"
    by (simp add: exQuery_tokens exFileName_tokens js_def)
  moreover have "tokenize exFileName \<noteq> []"
    by (simp add: exFileName_tokens)
  ultimately show ?thesis
    using assms exFile_dateMatch [OF assms] exFile_extensionMatch [OF assms]
      exFile_sequenceMatch [OF assms]
    by (simp add: scoreFile_def)
qed

text \<open>
  Claim C2. The cell text of the scenario yields the one query and the one date. Against
  a pool that holds the file of the scenario (whatever its path, time stamp and handle),
  the token overlap scores 1 and the date boost adds 0.40, with no other boost, so the score
  is 1.4, above 1.2, and the classification is \<open>FOUND\<close> with that file.
\<close>

theorem scenario_dated_report_found:
  "extractMetadata exCell = \<lparr> queries = [exQuery], dates = [js ''20/04/2010''] \<rparr> \<and>
   baseScore (tokenize exQuery) (tokenize exFileName) = 1 \<and>
   scoreFile exQuery (tokenize exQuery) (concat (map getDatePermutations [js ''20/04/2010'']))
     \<lparr> name = exFileName, path = p, lastModified = t, fileObject = h \<rparr> = Some (1 + 2 / 5) \<and>
   (1 + 2 / 5 :: rat) > 6 / 5 \<and>
   findBestMatch (queries (extractMetadata exCell)) (dates (extractMetadata exCell))
     [\<lparr> name = exFileName, path = p, lastModified = t, fileObject = h \<rparr>]
   = \<lparr> status = FOUND,
       resultFile = Some \<lparr> name = exFileName, path = p, lastModified = t, fileObject = h \<rparr>,
       resultCandidates = None \<rparr>"
proof -
  let ?f = "\<lparr> name = exFileName, path = p, lastModified = t, fileObject = h \<rparr>"
  have nm: "name ?f = exFileName" by simp
  have base: "baseScore (tokenize exQuery) (tokenize exFileName) = 1"
    by (simp add: exQuery_tokens exFileName_tokens baseScore_def js_def)
  have sc: "scoreFile exQuery (tokenize exQuery) (getDatePermutations (js ''20/04/2010'')) ?f = Some (7 / 5)"
    using nm by (rule exFile_score)
  have qt: "tokenize exQuery \<noteq> []"
    by (simp add: exQuery_tokens)
  have "findBestMatch [exQuery] [js ''20/04/2010''] [?f]
        = \<lparr> status = FOUND, resultFile = Some ?f, resultCandidates = None \<rparr>"
    using sc qt
    by (simp add: findBestMatch_def candidatesOfQuery_def candidatesOfFile_def
        deduplicate_def dedupStep_def sortCandidates_def classify_def)
  with base sc show ?thesis
    by (simp add: exCell_metadata)
qed

theorem scenario_dated_report_found_witness:
  "status (findBestMatch (queries (extractMetadata exCell)) (dates (extractMetadata exCell))
     [\<lparr> name = exFileName, path = js ''Ponto 1/RE_Relatorio_Final_20042010.pdf'',
        lastModified = 0, fileObject = None \<rparr>]) = FOUND"
proof -
  have "findBestMatch (queries (extractMetadata exCell)) (dates (extractMetadata exCell))
     [\<lparr> name = exFileName, path = js ''Ponto 1/RE_Relatorio_Final_20042010.pdf'',
        lastModified = 0, fileObject = None \<rparr>]
   = \<lparr> status = FOUND,
       resultFile = Some \<lparr> name = exFileName, path = js ''Ponto 1/RE_Relatorio_Final_20042010.pdf'',
        lastModified = 0, fileObject = None \<rparr>,
       resultCandidates = None \<rparr>"
    using scenario_dated_report_found
      [of "js ''Ponto 1/RE_Relatorio_Final_20042010.pdf''" 0 None]
    by blast
  then show ?thesis by simp
qed

section \<open>No quoted substring, no query\<close>

lemma scanQuotes_empty_iff: "scanQuotes s = [] \<longleftrightarrow> \<not> hasQuotedSubstring s"
proof (induction s rule: scanQuotes.induct)
  case 1
  show ?case by simp
next
  case (2 c cs)
  let ?body = "takeWhile (\<lambda>x. \<not> isCloseQuote x) cs"
  let ?rest = "dropWhile (\<lambda>x. \<not> isCloseQuote x) cs"
  have body: "?body \<noteq> [] \<longleftrightarrow> cs \<noteq> [] \<and> \<not> isCloseQuote (hd cs)"
    by (cases cs) simp_all
  have rest: "?rest \<noteq> [] \<longleftrightarrow> list_ex isCloseQuote cs"
    by (simp add: list_ex_iff)
  show ?case
  proof (cases "isOpenQuote c \<and> ?body \<noteq> [] \<and> ?rest \<noteq> []")
    case True
    then have "scanQuotes (c # cs) \<noteq> []" by (simp add: Let_def)
    moreover from True body rest have "hasQuotedSubstring (c # cs)" by simp
    ultimately show ?thesis by simp
  next
    case False
    then have "scanQuotes (c # cs) = scanQuotes cs" by (auto simp: Let_def)
    moreover from False body rest have "hasQuotedSubstring (c # cs) = hasQuotedSubstring cs"
      by auto
    moreover from False have "scanQuotes cs = [] \<longleftrightarrow> \<not> hasQuotedSubstring cs"
      by (intro "2.IH"(2) [OF refl refl]) simp
    ultimately show ?thesis by simp
  qed
qed

text \<open>
  Claim C3. A cell text with no quoted substring yields no query, whatever dates it holds;
  and with an empty query list \<open>findBestMatch\<close> answers \<open>NO_QUERY\<close> for every date list and
  every file pool, in particular for the dates extracted from that cell.
\<close>

theorem no_quoted_substring_no_query:
  assumes "\<not> hasQuotedSubstring cellContent"
  shows "queries (extractMetadata cellContent) = [] \<and>
    findBestMatch (queries (extractMetadata cellContent)) (dates (extractMetadata cellContent))
        availableFiles
      = \<lparr> status = NO_QUERY, resultFile = None, resultCandidates = None \<rparr> \<and>
    findBestMatch [] ds availableFiles
      = \<lparr> status = NO_QUERY, resultFile = None, resultCandidates = None \<rparr>"
proof -
  from assms have "scanQuotes cellContent = []"
    by (simp add: scanQuotes_empty_iff)
  then have "queries (extractMetadata cellContent) = []"
    by (simp add: extractMetadata_def)
  then show ?thesis
    by (simp add: findBestMatch_def)
qed

theorem no_quoted_substring_no_query_witness:
  "dates (extractMetadata (js ''Reuniao de 20/04/2010 (5 pol.)'')) = [js ''20/04/2010''] \<and>
   queries (extractMetadata (js ''Reuniao de 20/04/2010 (5 pol.)'')) = [] \<and>
   status (findBestMatch (queries (extractMetadata (js ''Reuniao de 20/04/2010 (5 pol.)'')))
     (dates (extractMetadata (js ''Reuniao de 20/04/2010 (5 pol.)'')))
     [exNode ''Reuniao_20042010.pdf'' ''Ponto 1/Reuniao_20042010.pdf'']) = NO_QUERY"
proof -
  have no: "\<not> hasQuotedSubstring (js ''Reuniao de 20/04/2010 (5 pol.)'')"
    by (simp add: js_def isOpenQuote_def)
  have "dates (extractMetadata (js ''Reuniao de 20/04/2010 (5 pol.)'')) = [js ''20/04/2010'']"
    by (simp add: char_class_defs extract_defs)
  with no_quoted_substring_no_query [OF no,
      of "[exNode ''Reuniao_20042010.pdf'' ''Ponto 1/Reuniao_20042010.pdf'']"]
  show ?thesis by simp
qed

section \<open>Reconciliation\<close>

lemma attached_idem: "attached fileSource (attached fileSource n) = attached fileSource n"
  by (simp add: attached_def split: option.splits)

lemma attached_fields:
  "name (attached fileSource n) = name n"
  "path (attached fileSource n) = path n"
  "lastModified (attached fileSource n) = lastModified n"
  by (simp_all add: attached_def split: option.splits)

lemma attached_fileObject:
  "fileObject (attached fileSource n) =
     (case fileObject n of Some h \<Rightarrow> Some h | None \<Rightarrow> fileSource (path n))"
  by (simp add: attached_def split: option.splits)

lemma attach_eq: "attach fileSource r st = st(r := attached fileSource (st r))"
  by (auto simp: attach_def attached_def split: option.splits)

lemma attachAll_attachAll:
  "attachAll fileSource B (attachAll fileSource A st) = attachAll fileSource (A \<union> B) st"
  by (rule ext) (simp add: attachAll_def attached_idem)

lemma attachAll_empty: "attachAll fileSource {} st = st"
  by (simp add: attachAll_def)

lemma attach_attachAll: "attach fileSource r st = attachAll fileSource {r} st"
  by (rule ext) (simp add: attach_eq attachAll_def)

lemma fold_attach: "fold (attach fileSource) rs st = attachAll fileSource (set rs) st"
proof (induction rs arbitrary: st)
  case Nil
  show ?case by (simp add: attachAll_empty)
next
  case (Cons r rs)
  have "fold (attach fileSource) (r # rs) st = attachAll fileSource (set rs) (attachAll fileSource {r} st)"
    by (simp add: Cons.IH attach_attachAll)
  also have "\<dots> = attachAll fileSource (set (r # rs)) st"
    by (simp add: attachAll_attachAll)
  finally show ?case .
qed

lemma reconcileResult_eq:
  "reconcileResult fileSource res st = attachAll fileSource (refsOf res) st"
proof -
  have m: "(case matchedFile res of Some r \<Rightarrow> attach fileSource r st | None \<Rightarrow> st)
      = attachAll fileSource (set_option (matchedFile res)) st"
    by (cases "matchedFile res") (simp_all add: attachAll_empty attach_attachAll)
  have l: "(case xs of Some rs \<Rightarrow> fold (attach fileSource) rs st' | None \<Rightarrow> st')
      = attachAll fileSource (case xs of Some rs \<Rightarrow> set rs | None \<Rightarrow> {}) st'" for xs st'
    by (cases xs) (simp_all add: attachAll_empty fold_attach)
  show ?thesis
    unfolding reconcileResult_def Let_def m l attachAll_attachAll refsOf_def
    by (simp add: Un_assoc)
qed

lemma fold_reconcileResult:
  "fold (reconcileResult fileSource) rs st = attachAll fileSource (\<Union> (refsOf ` set rs)) st"
proof (induction rs arbitrary: st)
  case Nil
  show ?case by (simp add: attachAll_empty)
next
  case (Cons r rs)
  have "fold (reconcileResult fileSource) (r # rs) st
      = attachAll fileSource (\<Union> (refsOf ` set rs)) (attachAll fileSource (refsOf r) st)"
    by (simp add: Cons.IH reconcileResult_eq)
  also have "\<dots> = attachAll fileSource (\<Union> (refsOf ` set (r # rs))) st"
    by (simp add: attachAll_attachAll)
  finally show ?case .
qed

lemma nodes_reconcileFiles:
  "nodes (reconcileFiles rs fileSource s) = attachAll fileSource (\<Union> (refsOf ` set rs)) (nodes s)"
  by (simp add: reconcileFiles_def fold_reconcileResult)

text \<open>
  Claim C4. Reconciling a second time with the same mapping changes nothing. The record
  list stays as it is, and so do name, path and time stamp of every node. A handle that is
  present stays the same handle. A node without a handle gains the handle that the mapping
  holds for its path when one of the records refers to the node (as matched file, candidate
  or manual resolution), and stays without a handle otherwise.
\<close>

theorem reconcileFiles_idempotent_monotone:
  "reconcileFiles rs fileSource (reconcileFiles rs fileSource s) = reconcileFiles rs fileSource s \<and>
   results (reconcileFiles rs fileSource s) = rs \<and>
   (\<forall>r. name (nodes (reconcileFiles rs fileSource s) r) = name (nodes s r) \<and>
        path (nodes (reconcileFiles rs fileSource s) r) = path (nodes s r) \<and>
        lastModified (nodes (reconcileFiles rs fileSource s) r) = lastModified (nodes s r)) \<and>
   (\<forall>r h. fileObject (nodes s r) = Some h \<longrightarrow>
        fileObject (nodes (reconcileFiles rs fileSource s) r) = Some h) \<and>
   (\<forall>r. fileObject (nodes s r) = None \<longrightarrow>
        fileObject (nodes (reconcileFiles rs fileSource s) r) =
          (if r \<in> \<Union> (refsOf ` set rs) then fileSource (path (nodes s r)) else None))"
proof -
  let ?A = "\<Union> (refsOf ` set rs)"
  have twice: "reconcileFiles rs fileSource (reconcileFiles rs fileSource s) = reconcileFiles rs fileSource s"
    by (simp add: reconcileFiles_def fold_reconcileResult attachAll_attachAll)
  have res: "results (reconcileFiles rs fileSource s) = rs"
    by (simp add: reconcileFiles_def)
  have fields: "name (nodes (reconcileFiles rs fileSource s) r) = name (nodes s r) \<and>
        path (nodes (reconcileFiles rs fileSource s) r) = path (nodes s r) \<and>
        lastModified (nodes (reconcileFiles rs fileSource s) r) = lastModified (nodes s r)" for r
    by (simp add: nodes_reconcileFiles attachAll_def attached_fields)
  have keep: "fileObject (nodes (reconcileFiles rs fileSource s) r) = Some h"
    if "fileObject (nodes s r) = Some h" for r h
    using that by (simp add: nodes_reconcileFiles attachAll_def attached_fileObject)
  have gain: "fileObject (nodes (reconcileFiles rs fileSource s) r) =
          (if r \<in> ?A then fileSource (path (nodes s r)) else None)"
    if "fileObject (nodes s r) = None" for r
    using that by (simp add: nodes_reconcileFiles attachAll_def attached_fileObject)
  from twice res fields keep gain show ?thesis by blast
qed

theorem reconcileFiles_idempotent_monotone_witness:
  "fileObject (nodes (reconcileFiles [exRefResult] exSource exState) 0) = Some 5 \<and>
   fileObject (nodes (reconcileFiles [exRefResult] exSource exState) 1) = Some 7 \<and>
   fileObject (nodes (reconcileFiles [exRefResult] exSource exState) 2) = None \<and>
   reconcileFiles [exRefResult] exSource (reconcileFiles [exRefResult] exSource exState)
     = reconcileFiles [exRefResult] exSource exState"
proof -
  have a: "fileObject (nodes exState 0) = None" "fileObject (nodes exState 1) = Some 7"
    "fileObject (nodes exState 2) = None"
    by (simp_all add: exState_def exStore_def)
  have b: "(0::nat) \<in> \<Union> (refsOf ` set [exRefResult])" "(2::nat) \<in> \<Union> (refsOf ` set [exRefResult])"
    by (simp_all add: refsOf_def exRefResult_def)
  have c: "exSource (path (nodes exState 0)) = Some 5" "exSource (path (nodes exState 2)) = None"
    by (simp_all add: exState_def exStore_def exSource_def js_def)
  from reconcileFiles_idempotent_monotone [of "[exRefResult]" exSource exState] a b c
  show ?thesis by simp
qed

section \<open>Deduplication by path\<close>

lemma map_fst_mapSet:
  "map fst (mapSet k v m) = (if k \<in> fst ` set m then map fst m else map fst m @ [k])"
  by (induction m) (force simp: image_iff)+

lemma set_mapSet:
  "distinct (map fst m) \<Longrightarrow> set (mapSet k v m) = insert (k, v) {e \<in> set m. fst e \<noteq> k}"
proof (induction m)
  case Nil
  show ?case by simp
next
  case (Cons e m)
  obtain k' v' where e: "e = (k', v')" by (cases e)
  from Cons.prems have dm: "distinct (map fst m)" and notin: "k' \<notin> fst ` set m"
    by (simp_all add: e)
  show ?case
  proof (cases "k' = k")
    case True
    from notin True have "\<And>x. x \<in> set m \<Longrightarrow> fst x \<noteq> k" by blast
    then have "{x \<in> set m. fst x \<noteq> k} = set m" by blast
    moreover have "{x \<in> set (e # m). fst x \<noteq> k} = {x \<in> set m. fst x \<noteq> k}"
      using True e by auto
    moreover have "set (mapSet k v (e # m)) = insert (k, v) (set m)"
      using True e by simp
    ultimately show ?thesis by simp
  next
    case False
    have "{x \<in> set (e # m). fst x \<noteq> k} = insert e {x \<in> set m. fst x \<noteq> k}"
      using False e by auto
    moreover have "set (mapSet k v (e # m)) = insert e (set (mapSet k v m))"
      using False e by simp
    ultimately show ?thesis
      using Cons.IH [OF dm] by (simp add: insert_commute)
  qed
qed

lemma dedupInvI:
  assumes "distinct (map fst m)"
    and "fst ` set m = (\<lambda>c. path (cfile c)) ` set cs"
    and "\<And>k v. (k, v) \<in> set m \<Longrightarrow> k = path (cfile v) \<and> v \<in> set cs \<and>
        (\<forall>c \<in> set cs. path (cfile c) = k \<longrightarrow> score c \<le> score v)"
  shows "dedupInv cs m"
  unfolding dedupInv_def using assms by simp

lemma dedupInvD:
  assumes "dedupInv cs m"
  shows "distinct (map fst m)"
    and "fst ` set m = (\<lambda>c. path (cfile c)) ` set cs"
    and "\<And>k v. (k, v) \<in> set m \<Longrightarrow> k = path (cfile v) \<and> v \<in> set cs \<and>
        (\<forall>c \<in> set cs. path (cfile c) = k \<longrightarrow> score c \<le> score v)"
  using assms unfolding dedupInv_def by simp_all

lemma dedupInv_mapSet:
  assumes inv: "dedupInv cs m"
    and best: "\<forall>c' \<in> set cs. path (cfile c') = path (cfile c) \<longrightarrow> score c' \<le> score c"
  shows "dedupInv (cs @ [c]) (mapSet (path (cfile c)) c m)"
proof -
  let ?k = "path (cfile c)"
  let ?m = "mapSet ?k c m"
  note dist = dedupInvD(1) [OF inv] and keys = dedupInvD(2) [OF inv] and ents = dedupInvD(3) [OF inv]
  have setm: "set ?m = insert (?k, c) {e \<in> set m. fst e \<noteq> ?k}"
    using dist by (rule set_mapSet)
  have d: "distinct (map fst ?m)"
    using dist by (simp add: map_fst_mapSet)
  have "fst ` set ?m = insert ?k (fst ` set m)"
    unfolding setm by force
  then have k: "fst ` set ?m = (\<lambda>c. path (cfile c)) ` set (cs @ [c])"
    using keys by auto
  have e: "k = path (cfile v) \<and> v \<in> set (cs @ [c]) \<and>
        (\<forall>c' \<in> set (cs @ [c]). path (cfile c') = k \<longrightarrow> score c' \<le> score v)"
    if "(k, v) \<in> set ?m" for k v
  proof (cases "(k, v) = (?k, c)")
    case True
    with best show ?thesis by auto
  next
    case False
    with that setm have old: "(k, v) \<in> set m" and ne: "k \<noteq> ?k" by auto
    from ents [OF old] ne show ?thesis by auto
  qed
  show ?thesis
    using d k e by (rule dedupInvI)
qed

lemma dedupInv_keep:
  assumes inv: "dedupInv cs m"
    and ex: "(path (cfile c), existing) \<in> set m"
    and le: "score c \<le> score existing"
  shows "dedupInv (cs @ [c]) m"
proof -
  note dist = dedupInvD(1) [OF inv] and keys = dedupInvD(2) [OF inv] and ents = dedupInvD(3) [OF inv]
  have "path (cfile c) \<in> fst ` set m"
    using ex by force
  then have k: "fst ` set m = (\<lambda>c. path (cfile c)) ` set (cs @ [c])"
    using keys by auto
  have e: "k = path (cfile v) \<and> v \<in> set (cs @ [c]) \<and>
        (\<forall>c' \<in> set (cs @ [c]). path (cfile c') = k \<longrightarrow> score c' \<le> score v)"
    if kv: "(k, v) \<in> set m" for k v
  proof (cases "k = path (cfile c)")
    case True
    with kv ex dist have "v = existing"
      by (metis eq_key_imp_eq_value)
    with ents [OF kv] le True show ?thesis by auto
  next
    case False
    with ents [OF kv] show ?thesis by auto
  qed
  show ?thesis
    using dist k e by (rule dedupInvI)
qed

lemma dedupInv_step:
  assumes inv: "dedupInv cs m"
  shows "dedupInv (cs @ [c]) (dedupStep c m)"
proof (cases "map_of m (path (cfile c))")
  case None
  then have "path (cfile c) \<notin> fst ` set m"
    by (simp add: map_of_eq_None_iff)
  with dedupInvD(2) [OF inv] have "path (cfile c) \<notin> (\<lambda>c. path (cfile c)) ` set cs"
    by simp
  then have "\<forall>c' \<in> set cs. path (cfile c') = path (cfile c) \<longrightarrow> score c' \<le> score c"
    by (metis image_eqI)
  with inv have "dedupInv (cs @ [c]) (mapSet (path (cfile c)) c m)"
    by (rule dedupInv_mapSet)
  with None show ?thesis by (simp add: dedupStep_def)
next
  case (Some existing)
  then have ex: "(path (cfile c), existing) \<in> set m"
    by (rule map_of_SomeD)
  from dedupInvD(3) [OF inv ex]
  have exMax: "\<forall>c' \<in> set cs. path (cfile c') = path (cfile c) \<longrightarrow> score c' \<le> score existing"
    by simp
  show ?thesis
  proof (cases "score c > score existing")
    case True
    with exMax have "\<forall>c' \<in> set cs. path (cfile c') = path (cfile c) \<longrightarrow> score c' \<le> score c"
      by force
    with inv have "dedupInv (cs @ [c]) (mapSet (path (cfile c)) c m)"
      by (rule dedupInv_mapSet)
    with Some True show ?thesis by (simp add: dedupStep_def)
  next
    case False
    then have "score c \<le> score existing" by simp
    with inv ex have "dedupInv (cs @ [c]) m"
      by (rule dedupInv_keep)
    with Some False show ?thesis by (simp add: dedupStep_def)
  qed
qed

lemma dedupInv_fold: "dedupInv cs (fold dedupStep cs [])"
proof (induction cs rule: rev_induct)
  case Nil
  show ?case by (simp add: dedupInv_def)
next
  case (snoc c cs)
  then show ?case by (simp add: dedupInv_step)
qed

text \<open>
  Claim C5. After deduplication every path of the scored pairs occurs on exactly one entry,
  no other path occurs, and each entry is one of the scored pairs whose score is the maximum
  of the scores of all pairs with its path.
\<close>

theorem deduplicate_keeps_maximum:
  "distinct (map (\<lambda>e. path (cfile e)) (deduplicate cs)) \<and>
   set (map (\<lambda>e. path (cfile e)) (deduplicate cs)) = set (map (\<lambda>c. path (cfile c)) cs) \<and>
   (\<forall>e \<in> set (deduplicate cs).
      e \<in> set cs \<and> score e = Max (score ` {c \<in> set cs. path (cfile c) = path (cfile e)}))"
proof -
  let ?m = "fold dedupStep cs []"
  have inv: "dedupInv cs ?m" by (rule dedupInv_fold)
  note dist = dedupInvD(1) [OF inv] and keys = dedupInvD(2) [OF inv] and ents = dedupInvD(3) [OF inv]
  have "path (cfile (snd x)) = fst x" if "x \<in> set ?m" for x
    using ents [of "fst x" "snd x"] that by simp
  then have key: "map (\<lambda>e. path (cfile e)) (deduplicate cs) = map fst ?m"
    unfolding deduplicate_def by (simp add: comp_def)
  have a: "distinct (map (\<lambda>e. path (cfile e)) (deduplicate cs))"
    unfolding key by (rule dist)
  have b: "set (map (\<lambda>e. path (cfile e)) (deduplicate cs)) = set (map (\<lambda>c. path (cfile c)) cs)"
    unfolding key using keys by simp
  have c: "e \<in> set cs \<and> score e = Max (score ` {c \<in> set cs. path (cfile c) = path (cfile e)})"
    if "e \<in> set (deduplicate cs)" for e
  proof -
    from that obtain k where kv: "(k, e) \<in> set ?m"
      unfolding deduplicate_def by auto
    from ents [OF kv] have k: "k = path (cfile e)" and mem: "e \<in> set cs"
      and mx: "\<forall>c \<in> set cs. path (cfile c) = path (cfile e) \<longrightarrow> score c \<le> score e"
      by auto
    let ?S = "score ` {c \<in> set cs. path (cfile c) = path (cfile e)}"
    have "finite ?S" by simp
    moreover have "score e \<in> ?S" using mem by blast
    moreover have "\<forall>x \<in> ?S. x \<le> score e" using mx by blast
    ultimately have "Max ?S = score e" by (meson Max_eqI)
    with mem show ?thesis by simp
  qed
  from a b c show ?thesis by blast
qed


theorem deduplicate_keeps_maximum_witness:
  "deduplicate
     [\<lparr> cfile = exNode ''a.pdf'' ''P/a.pdf'', score = 3 / 5 \<rparr>,
      \<lparr> cfile = exNode ''b.pdf'' ''P/b.pdf'', score = 7 / 10 \<rparr>,
      \<lparr> cfile = exNode ''a.pdf'' ''P/a.pdf'', score = 9 / 10 \<rparr>,
      \<lparr> cfile = exNode ''b.pdf'' ''P/b.pdf'', score = 13 / 20 \<rparr>]
   = [\<lparr> cfile = exNode ''a.pdf'' ''P/a.pdf'', score = 9 / 10 \<rparr>,
      \<lparr> cfile = exNode ''b.pdf'' ''P/b.pdf'', score = 7 / 10 \<rparr>]
   \<and> distinct (map (\<lambda>e. path (cfile e)) (deduplicate
     [\<lparr> cfile = exNode ''a.pdf'' ''P/a.pdf'', score = 3 / 5 \<rparr>,
      \<lparr> cfile = exNode ''b.pdf'' ''P/b.pdf'', score = 7 / 10 \<rparr>,
      \<lparr> cfile = exNode ''a.pdf'' ''P/a.pdf'', score = 9 / 10 \<rparr>,
      \<lparr> cfile = exNode ''b.pdf'' ''P/b.pdf'', score = 13 / 20 \<rparr>]))"
  using deduplicate_keeps_maximum [of
     "[\<lparr> cfile = exNode ''a.pdf'' ''P/a.pdf'', score = 3 / 5 \<rparr>,
      \<lparr> cfile = exNode ''b.pdf'' ''P/b.pdf'', score = 7 / 10 \<rparr>,
      \<lparr> cfile = exNode ''a.pdf'' ''P/a.pdf'', score = 9 / 10 \<rparr>,
      \<lparr> cfile = exNode ''b.pdf'' ''P/b.pdf'', score = 13 / 20 \<rparr>]"]
  by (simp add: js_def dedupStep_def deduplicate_def exNode_def)

section \<open>Migration of a saved session\<close>

lemma migrateResult_list:
  "manualResolutions (migrateResult r) =
     (case manualResolution r of
        Some m \<Rightarrow> (if manualResolutions r = None \<or> manualResolutions r = Some [] then Some [m]
                   else manualResolutions r)
      | None \<Rightarrow> manualResolutions r)"
  by (simp add: migrateResult_def Let_def split: option.splits list.splits)

lemma migrateResult_status:
  "matchStatus (migrateResult r) =
     (case manualResolutions (migrateResult r) of
        Some (x # xs) \<Rightarrow> FOUND
      | Some [] \<Rightarrow> matchStatus r
      | None \<Rightarrow> matchStatus r)"
  by (simp add: migrateResult_def Let_def split: option.splits list.splits)

text \<open>
  Claim C6. For every record of the loaded session: a singular manual resolution becomes
  the one-element list when the list is absent or empty, and the list is left alone
  otherwise; after that, a record with a non-empty list has status \<open>FOUND\<close> and any other
  record keeps its status; the singular field itself stays. This holds for every record of
  the list that the load stores.
\<close>

theorem migration_forces_found:
  fixes r :: "'f SavedResult" and rs :: "'f SavedResult list"
  shows
  "(\<forall>m. manualResolution r = Some m \<and> (manualResolutions r = None \<or> manualResolutions r = Some [])
        \<longrightarrow> manualResolutions (migrateResult r) = Some [m]) \<and>
   (manualResolution r = None \<or> (\<exists>x xs. manualResolutions r = Some (x # xs))
        \<longrightarrow> manualResolutions (migrateResult r) = manualResolutions r) \<and>
   (\<forall>x xs. manualResolutions (migrateResult r) = Some (x # xs)
        \<longrightarrow> matchStatus (migrateResult r) = FOUND) \<and>
   (manualResolutions (migrateResult r) = None \<or> manualResolutions (migrateResult r) = Some []
        \<longrightarrow> matchStatus (migrateResult r) = matchStatus r) \<and>
   manualResolution (migrateResult r) = manualResolution r \<and>
   length (migratedResults rs) = length rs \<and>
   (\<forall>r' \<in> set (migratedResults rs). \<forall>x xs.
        manualResolutions r' = Some (x # xs) \<longrightarrow> matchStatus r' = FOUND)"
proof -
  have a: "\<forall>m. manualResolution r = Some m \<and> (manualResolutions r = None \<or> manualResolutions r = Some [])
        \<longrightarrow> manualResolutions (migrateResult r) = Some [m]"
    by (auto simp: migrateResult_list)
  have b: "manualResolution r = None \<or> (\<exists>x xs. manualResolutions r = Some (x # xs))
        \<longrightarrow> manualResolutions (migrateResult r) = manualResolutions r"
    by (auto simp: migrateResult_list split: option.splits)
  have found: "matchStatus (migrateResult q) = FOUND"
    if "manualResolutions (migrateResult q) = Some (x # xs)" for q :: "'f SavedResult" and x xs
    using that by (simp add: migrateResult_status)
  then have c: "\<forall>x xs. manualResolutions (migrateResult r) = Some (x # xs)
        \<longrightarrow> matchStatus (migrateResult r) = FOUND"
    by blast
  have d: "manualResolutions (migrateResult r) = None \<or> manualResolutions (migrateResult r) = Some []
        \<longrightarrow> matchStatus (migrateResult r) = matchStatus r"
    by (auto simp: migrateResult_status)
  have e: "manualResolution (migrateResult r) = manualResolution r"
    by (simp add: migrateResult_def Let_def split: option.splits list.splits)
  have f: "length (migratedResults rs) = length rs"
    by (simp add: migratedResults_def)
  have g: "\<forall>r' \<in> set (migratedResults rs). \<forall>x xs.
        manualResolutions r' = Some (x # xs) \<longrightarrow> matchStatus r' = FOUND"
  proof (intro ballI allI impI)
    fix r' x xs
    assume "r' \<in> set (migratedResults rs)" and list: "manualResolutions r' = Some (x # xs)"
    then obtain q where "r' = migrateResult q"
      by (auto simp: migratedResults_def)
    with list found show "matchStatus r' = FOUND" by simp
  qed
  from a b c d e f g show ?thesis by (intro conjI)
qed

theorem migration_forces_found_witness:
  "manualResolutions (migrateResult exLegacy) = Some [exNode ''b.pdf'' ''P/b.pdf''] \<and>
   matchStatus (migrateResult exLegacy) = FOUND \<and>
   matchStatus exLegacy = AMBIGUOUS"
proof -
  have a: "manualResolution exLegacy = Some (exNode ''b.pdf'' ''P/b.pdf'')"
    "manualResolutions exLegacy = None" "matchStatus exLegacy = AMBIGUOUS"
    by (simp_all add: exLegacy_def)
  from migration_forces_found [of exLegacy "[]"] a
  have "manualResolutions (migrateResult exLegacy) = Some [exNode ''b.pdf'' ''P/b.pdf'']"
    by blast
  moreover from this migration_forces_found [of exLegacy "[]"]
  have "matchStatus (migrateResult exLegacy) = FOUND"
    by blast
  ultimately show ?thesis using a by simp
qed

section \<open>Writing the spreadsheet\<close>

lemma getIndex_setIndex_same: "getIndex (setIndex xs i v) i = Some v"
  by (simp add: getIndex_def setIndex_def nth_append)

lemma getIndex_setIndex_other: "j \<noteq> i \<Longrightarrow> getIndex (setIndex xs i v) j = getIndex xs j"
  by (auto simp: getIndex_def setIndex_def nth_append nth_Cons split: nat.splits)

lemma cellAt_writeResult_none:
  assumes "cellValueFor res = None"
  shows "cellAt (writeResult res sh) i j = cellAt sh i j"
proof (cases "rowId res = 0 \<or> getIndex sh (rowId res - 1) \<noteq> None")
  case True
  with assms show ?thesis by (auto simp: writeResult_def Let_def)
next
  case False
  then have w: "writeResult res sh = setIndex sh (rowId res - 1) []"
    using assms by (simp add: writeResult_def Let_def)
  show ?thesis
  proof (cases "i = rowId res - 1")
    case True
    with False show ?thesis
      by (simp add: w cellAt_def getIndex_setIndex_same) (simp add: getIndex_def)
  next
    case False
    then show ?thesis
      by (simp add: w cellAt_def getIndex_setIndex_other)
  qed
qed

lemma cellAt_writeResult_some:
  assumes "cellValueFor res = Some v" and "rowId res > 0"
  shows "cellAt (writeResult res sh) (rowId res - 1) 3 = Some v"
proof (cases "getIndex sh (rowId res - 1)")
  case None
  have "getIndex (setIndex sh (rowId res - 1) []) (rowId res - 1) = Some []"
    by (rule getIndex_setIndex_same)
  with None assms have "writeResult res sh
      = setIndex (setIndex sh (rowId res - 1) []) (rowId res - 1) (setIndex [] 3 v)"
    unfolding writeResult_def Let_def by simp
  then show ?thesis
    by (simp only: cellAt_def getIndex_setIndex_same option.case)
next
  case (Some r)
  with assms have "writeResult res sh = setIndex sh (rowId res - 1) (setIndex r 3 v)"
    unfolding writeResult_def Let_def by simp
  then show ?thesis
    by (simp only: cellAt_def getIndex_setIndex_same option.case)
qed

text \<open>
  What the writer does for one record, in the order of its tests. A record with a
  resolution gets the hyperlink cell; without one, an ambiguous record gets the flagged
  candidate list whether it is ignored or not, a record not found gets the failure marker
  unless it is ignored, and every other record assigns nothing, which leaves every cell of
  the sheet as it was.
\<close>

theorem writer_chain:
  "(finalFilesOf res \<noteq> [] \<longrightarrow>
      (\<exists>tip. cellValueFor res =
         Some (LinkCell
           (if length (finalFilesOf res) > 1
            then js ''(M'' @ [250] @ js ''ltiplos) '' @ joinWith (js '', '') (map name (finalFilesOf res))
            else joinWith (js '', '') (map name (finalFilesOf res)))
           (path (hd (finalFilesOf res))) tip))) \<and>
   (finalFilesOf res = [] \<and> matchStatus res = AMBIGUOUS \<longrightarrow>
      cellValueFor res =
        Some (StrCell (js ''AMB'' @ [205] @ js ''GUO: '' @
          (case candidates res of Some cs \<Rightarrow> joinWith (js '', '') (map name cs) | None \<Rightarrow> [])))) \<and>
   (finalFilesOf res = [] \<and> matchStatus res = NOT_FOUND \<and> isIgnored res \<noteq> Some True \<longrightarrow>
      cellValueFor res = Some (StrCell (js ''FALHA - Verificar Manualmente''))) \<and>
   (finalFilesOf res = [] \<and>
    (matchStatus res = NO_QUERY \<or> matchStatus res = FOUND \<or>
     matchStatus res = NOT_FOUND \<and> isIgnored res = Some True) \<longrightarrow>
      cellValueFor res = None) \<and>
   (cellValueFor res = None \<longrightarrow> (\<forall>i j. cellAt (writeResult res sh) i j = cellAt sh i j)) \<and>
   (\<forall>v. cellValueFor res = Some v \<and> rowId res > 0 \<longrightarrow>
      cellAt (writeResult res sh) (rowId res - 1) 3 = Some v)"
proof -
  have a: "finalFilesOf res \<noteq> [] \<longrightarrow>
      (\<exists>tip. cellValueFor res =
         Some (LinkCell
           (if length (finalFilesOf res) > 1
            then js ''(M'' @ [250] @ js ''ltiplos) '' @ joinWith (js '', '') (map name (finalFilesOf res))
            else joinWith (js '', '') (map name (finalFilesOf res)))
           (path (hd (finalFilesOf res))) tip))"
    by (simp add: cellValueFor_def Let_def)
  have b: "finalFilesOf res = [] \<and> matchStatus res = AMBIGUOUS \<longrightarrow>
      cellValueFor res =
        Some (StrCell (js ''AMB'' @ [205] @ js ''GUO: '' @
          (case candidates res of Some cs \<Rightarrow> joinWith (js '', '') (map name cs) | None \<Rightarrow> [])))"
    by (simp add: cellValueFor_def Let_def)
  have c: "finalFilesOf res = [] \<and> matchStatus res = NOT_FOUND \<and> isIgnored res \<noteq> Some True \<longrightarrow>
      cellValueFor res = Some (StrCell (js ''FALHA - Verificar Manualmente''))"
    by (simp add: cellValueFor_def Let_def)
  have d: "finalFilesOf res = [] \<and>
    (matchStatus res = NO_QUERY \<or> matchStatus res = FOUND \<or>
     matchStatus res = NOT_FOUND \<and> isIgnored res = Some True) \<longrightarrow>
      cellValueFor res = None"
    by (auto simp: cellValueFor_def Let_def)
  have e: "cellValueFor res = None \<longrightarrow> (\<forall>i j. cellAt (writeResult res sh) i j = cellAt sh i j)"
    by (simp add: cellAt_writeResult_none)
  have f: "\<forall>v. cellValueFor res = Some v \<and> rowId res > 0 \<longrightarrow>
      cellAt (writeResult res sh) (rowId res - 1) 3 = Some v"
    using cellAt_writeResult_some [of res _ sh] by blast
  from a b c d e f show ?thesis by (intro conjI)
qed

theorem writer_chain_witness:
  "cellValueFor (exIgnoredAmbiguous \<lparr> matchStatus := NOT_FOUND \<rparr>) = None \<and>
   cellAt (writeResult (exIgnoredAmbiguous \<lparr> matchStatus := NOT_FOUND \<rparr>) exSheet) 3 3
     = Some (StrCell (js ''nota''))"
proof -
  let ?r = "exIgnoredAmbiguous \<lparr> matchStatus := NOT_FOUND \<rparr>"
  have h: "finalFilesOf ?r = []" "matchStatus ?r = NOT_FOUND" "isIgnored ?r = Some True"
    by (simp_all add: exIgnoredAmbiguous_def finalFilesOf_def)
  from writer_chain [of ?r exSheet] h have n: "cellValueFor ?r = None"
    by blast
  with writer_chain [of ?r exSheet] have "cellAt (writeResult ?r exSheet) 3 3 = cellAt exSheet 3 3"
    by blast
  with n show ?thesis
    by (simp add: cellAt_def exSheet_def getIndex_def)
qed

text \<open>
  Claim C7. The claim holds for records with a resolution, for ambiguous records that are
  not ignored, for records not found, and for records without a query. It fails for an
  ignored ambiguous record without a resolution: the writer tests \<open>isIgnored\<close> only on the
  branch of \<open>NOT_FOUND\<close>, so the row of the example is not left as it is; its note in column
  index 3 is overwritten with the flagged candidate list.
\<close>

theorem ignored_ambiguous_row_is_written:
  "isIgnored exIgnoredAmbiguous = Some True \<and>
   cellAt exSheet 3 3 = Some (StrCell (js ''nota'')) \<and>
   cellValueFor exIgnoredAmbiguous = Some (StrCell (js ''AMB'' @ [205] @ js ''GUO: a.pdf, b.pdf'')) \<and>
   cellAt (generateExcelData exSheet [exIgnoredAmbiguous]) 3 3
     = Some (StrCell (js ''AMB'' @ [205] @ js ''GUO: a.pdf, b.pdf''))"
proof -
  have v: "cellValueFor exIgnoredAmbiguous = Some (StrCell (js ''AMB'' @ [205] @ js ''GUO: a.pdf, b.pdf''))"
    by (simp add: cellValueFor_def finalFilesOf_def exIgnoredAmbiguous_def exNode_def js_def)
  have r: "rowId exIgnoredAmbiguous > 0" "rowId exIgnoredAmbiguous - 1 = 3"
    by (simp_all add: exIgnoredAmbiguous_def)
  from cellAt_writeResult_some [OF v r(1), of exSheet] r(2)
  have "cellAt (generateExcelData exSheet [exIgnoredAmbiguous]) 3 3
     = Some (StrCell (js ''AMB'' @ [205] @ js ''GUO: a.pdf, b.pdf''))"
    by (simp add: generateExcelData_def)
  moreover have "cellAt exSheet 3 3 = Some (StrCell (js ''nota''))"
    by (simp add: cellAt_def exSheet_def getIndex_def)
  moreover have "isIgnored exIgnoredAmbiguous = Some True"
    by (simp add: exIgnoredAmbiguous_def)
  ultimately show ?thesis using v by simp
qed

theorem ignored_ambiguous_row_is_written_witness:
  "cellAt (generateExcelData exSheet [exIgnoredAmbiguous]) 3 3 \<noteq> cellAt exSheet 3 3"
  using ignored_ambiguous_row_is_written by (simp add: js_def)

section \<open>Date permutations\<close>

lemma splitEach_nonempty: "splitEach p s \<noteq> []"
  by (induction s) (simp_all split: list.splits)

lemma splitEach_append_separator:
  assumes "\<forall>c \<in> set a. \<not> p c" and "p c"
  shows "splitEach p (a @ c # rest) = a # splitEach p rest"
  using assms
proof (induction a)
  case Nil
  then show ?case by simp
next
  case (Cons x a)
  then show ?case by simp
qed

lemma digit_no_separator: "isDigit c \<Longrightarrow> \<not> isPermSep c"
  by (auto simp: isDigit_def isPermSep_def isSpace_def)

lemma dateSep_isPermSep: "isDateSep c \<Longrightarrow> isPermSep c"
  by (auto simp: isDateSep_def isPermSep_def)

lemma date_shape_parts:
  assumes "list_all isDigit d" "list_all isDigit m" "list_all isDigit y"
    and "d \<noteq> []" "m \<noteq> []" "y \<noteq> []"
    and "isDateSep s1" "isDateSep s2"
  shows "filter (\<lambda>p. length p > 0) (splitEach isPermSep (d @ [s1] @ m @ [s2] @ y)) = [d, m, y]"
proof -
  have nd: "\<forall>c \<in> set d. \<not> isPermSep c" and nm: "\<forall>c \<in> set m. \<not> isPermSep c"
    and ny: "\<forall>c \<in> set y. \<not> isPermSep c"
    using assms(1-3) by (auto simp: list_all_iff digit_no_separator)
  have "splitEach isPermSep (d @ [s1] @ m @ [s2] @ y) = d # splitEach isPermSep (m @ [s2] @ y)"
    using splitEach_append_separator [OF nd dateSep_isPermSep [OF assms(7)]] by simp
  also have "splitEach isPermSep (m @ [s2] @ y) = m # splitEach isPermSep y"
    using splitEach_append_separator [OF nm dateSep_isPermSep [OF assms(8)]] by simp
  also have "splitEach isPermSep y = [y]"
    using ny by (rule splitEach_no_separator)
  finally show ?thesis
    using assms(4-6) by simp
qed

lemma padStart2_digits:
  "list_all isDigit p \<Longrightarrow> p \<noteq> [] \<Longrightarrow> length p \<le> 2 \<Longrightarrow>
     length (padStart2 p) = 2 \<and> list_all isDigit (padStart2 p)"
  by (auto simp: padStart2_def isDigit_def list_all_iff)

lemma getDatePermutations_three:
  "filter (\<lambda>p. length p > 0) (splitEach isPermSep s) = [p0, p1, p2] \<Longrightarrow>
     getDatePermutations s =
       (if length p0 = 4 then dateVariants (padStart2 p2) (padStart2 p1) p0
        else dateVariants (padStart2 p0) (padStart2 p1) p2)"
  by (simp add: getDatePermutations_def Let_def)

lemma getDatePermutations_fallback:
  assumes "length (filter (\<lambda>p. length p > 0) (splitEach isPermSep s)) \<noteq> 3"
  shows "getDatePermutations s = [s]"
proof -
  let ?ps = "filter (\<lambda>p. length p > 0) (splitEach isPermSep s)"
  have *: "getDatePermutations s =
      (case ?ps of
         [p0, p1, p2] \<Rightarrow>
           (if length p0 = 4 then dateVariants (padStart2 p2) (padStart2 p1) p0
            else dateVariants (padStart2 p0) (padStart2 p1) p2)
       | _ \<Rightarrow> [s])"
    by (simp add: getDatePermutations_def Let_def)
  show ?thesis
  proof (cases ?ps)
    case Nil
    with * show ?thesis by simp
  next
    case c1: (Cons p0 t1)
    show ?thesis
    proof (cases t1)
      case Nil
      with * c1 show ?thesis by simp
    next
      case c2: (Cons p1 t2)
      show ?thesis
      proof (cases t2)
        case Nil
        with * c1 c2 show ?thesis by simp
      next
        case c3: (Cons p2 t3)
        show ?thesis
        proof (cases t3)
          case Nil
          with assms c1 c2 c3 show ?thesis by simp
        next
          case (Cons p3 t4)
          with * c1 c2 c3 show ?thesis by simp
        qed
      qed
    qed
  qed
qed

text \<open>
  Claim C8, as the code has it. A string whose non-empty parts between the separators
  (slash, hyphen, dot, white space) are not exactly three is returned as the sole variant.
  With exactly three parts, numeric or not, the result is the list of nine variants: the
  concatenation day-first and year-first, the hyphen, underscore and dot variants in both
  orders, and the space variant day-first only; day and month are padded to two code units,
  and the first part is the year when it has four code units. A date of the shapes that the
  extractor matches splits into its three numbers, and for such parts both concatenations
  are eight digits.
\<close>

theorem getDatePermutations_variants:
  "(length (filter (\<lambda>p. length p > 0) (splitEach isPermSep s)) \<noteq> 3 \<longrightarrow>
      getDatePermutations s = [s]) \<and>
   (filter (\<lambda>p. length p > 0) (splitEach isPermSep s) = [p0, p1, p2] \<longrightarrow>
      (let year = (if length p0 = 4 then p0 else p2);
           day = padStart2 (if length p0 = 4 then p2 else p0);
           month = padStart2 p1
       in getDatePermutations s =
            [day @ month @ year, year @ month @ day,
             day @ [45] @ month @ [45] @ year, year @ [45] @ month @ [45] @ day,
             year @ [95] @ month @ [95] @ day, year @ [46] @ month @ [46] @ day,
             day @ [95] @ month @ [95] @ year, day @ [46] @ month @ [46] @ year,
             day @ [32] @ month @ [32] @ year] \<and>
          (list_all isDigit p0 \<and> list_all isDigit p1 \<and> list_all isDigit p2 \<and> length p1 \<le> 2 \<and>
           (length p0 \<le> 2 \<and> length p2 = 4 \<or> length p0 = 4 \<and> length p2 \<le> 2) \<longrightarrow>
             length (day @ month @ year) = 8 \<and> list_all isDigit (day @ month @ year) \<and>
             length (year @ month @ day) = 8 \<and> list_all isDigit (year @ month @ day)))) \<and>
   (list_all isDigit d \<and> list_all isDigit m \<and> list_all isDigit y \<and>
    d \<noteq> [] \<and> m \<noteq> [] \<and> y \<noteq> [] \<and> isDateSep s1 \<and> isDateSep s2 \<longrightarrow>
      filter (\<lambda>p. length p > 0) (splitEach isPermSep (d @ [s1] @ m @ [s2] @ y)) = [d, m, y])"
proof -
  let ?parts = "filter (\<lambda>p. length p > 0) (splitEach isPermSep s)"
  have a: "length ?parts \<noteq> 3 \<longrightarrow> getDatePermutations s = [s]"
    using getDatePermutations_fallback [of s] by blast
  have b: "?parts = [p0, p1, p2] \<longrightarrow>
      (let year = (if length p0 = 4 then p0 else p2);
           day = padStart2 (if length p0 = 4 then p2 else p0);
           month = padStart2 p1
       in getDatePermutations s =
            [day @ month @ year, year @ month @ day,
             day @ [45] @ month @ [45] @ year, year @ [45] @ month @ [45] @ day,
             year @ [95] @ month @ [95] @ day, year @ [46] @ month @ [46] @ day,
             day @ [95] @ month @ [95] @ year, day @ [46] @ month @ [46] @ year,
             day @ [32] @ month @ [32] @ year] \<and>
          (list_all isDigit p0 \<and> list_all isDigit p1 \<and> list_all isDigit p2 \<and> length p1 \<le> 2 \<and>
           (length p0 \<le> 2 \<and> length p2 = 4 \<or> length p0 = 4 \<and> length p2 \<le> 2) \<longrightarrow>
             length (day @ month @ year) = 8 \<and> list_all isDigit (day @ month @ year) \<and>
             length (year @ month @ day) = 8 \<and> list_all isDigit (year @ month @ day)))"
  proof
    assume parts: "?parts = [p0, p1, p2]"
    have "p0 \<in> set ?parts" "p1 \<in> set ?parts" "p2 \<in> set ?parts"
      unfolding parts by simp_all
    then have ne: "p0 \<noteq> []" "p1 \<noteq> []" "p2 \<noteq> []"
      by simp_all
    note perm = getDatePermutations_three [OF parts]
    show "let year = (if length p0 = 4 then p0 else p2);
           day = padStart2 (if length p0 = 4 then p2 else p0);
           month = padStart2 p1
       in getDatePermutations s =
            [day @ month @ year, year @ month @ day,
             day @ [45] @ month @ [45] @ year, year @ [45] @ month @ [45] @ day,
             year @ [95] @ month @ [95] @ day, year @ [46] @ month @ [46] @ day,
             day @ [95] @ month @ [95] @ year, day @ [46] @ month @ [46] @ year,
             day @ [32] @ month @ [32] @ year] \<and>
          (list_all isDigit p0 \<and> list_all isDigit p1 \<and> list_all isDigit p2 \<and> length p1 \<le> 2 \<and>
           (length p0 \<le> 2 \<and> length p2 = 4 \<or> length p0 = 4 \<and> length p2 \<le> 2) \<longrightarrow>
             length (day @ month @ year) = 8 \<and> list_all isDigit (day @ month @ year) \<and>
             length (year @ month @ day) = 8 \<and> list_all isDigit (year @ month @ day))"
    proof (cases "length p0 = 4")
      case True
      have vs: "getDatePermutations s = dateVariants (padStart2 p2) (padStart2 p1) p0"
        using perm True by simp
      have eight: "length (padStart2 p2 @ padStart2 p1 @ p0) = 8 \<and>
             list_all isDigit (padStart2 p2 @ padStart2 p1 @ p0) \<and>
             length (p0 @ padStart2 p1 @ padStart2 p2) = 8 \<and>
             list_all isDigit (p0 @ padStart2 p1 @ padStart2 p2)"
        if h: "list_all isDigit p0 \<and> list_all isDigit p1 \<and> list_all isDigit p2 \<and> length p1 \<le> 2 \<and>
           (length p0 \<le> 2 \<and> length p2 = 4 \<or> length p0 = 4 \<and> length p2 \<le> 2)"
      proof -
        from h True have l2: "length p2 \<le> 2" by simp
        from h have d: "list_all isDigit p0" "list_all isDigit p1" "list_all isDigit p2" "length p1 \<le> 2"
          by simp_all
        from padStart2_digits [OF d(2) ne(2) d(4)] padStart2_digits [OF d(3) ne(3) l2] d(1) True
        show ?thesis by simp
      qed
      show ?thesis
        unfolding Let_def if_P [OF True] vs dateVariants_def
        using eight by (intro conjI impI refl) simp_all
    next
      case False
      have vs: "getDatePermutations s = dateVariants (padStart2 p0) (padStart2 p1) p2"
        using perm False by simp
      have eight: "length (padStart2 p0 @ padStart2 p1 @ p2) = 8 \<and>
             list_all isDigit (padStart2 p0 @ padStart2 p1 @ p2) \<and>
             length (p2 @ padStart2 p1 @ padStart2 p0) = 8 \<and>
             list_all isDigit (p2 @ padStart2 p1 @ padStart2 p0)"
        if h: "list_all isDigit p0 \<and> list_all isDigit p1 \<and> list_all isDigit p2 \<and> length p1 \<le> 2 \<and>
           (length p0 \<le> 2 \<and> length p2 = 4 \<or> length p0 = 4 \<and> length p2 \<le> 2)"
      proof -
        from h False have l: "length p0 \<le> 2" "length p2 = 4" by simp_all
        from h have d: "list_all isDigit p0" "list_all isDigit p1" "list_all isDigit p2" "length p1 \<le> 2"
          by simp_all
        from padStart2_digits [OF d(2) ne(2) d(4)] padStart2_digits [OF d(1) ne(1) l(1)] d(3) l(2)
        show ?thesis by simp
      qed
      show ?thesis
        unfolding Let_def if_not_P [OF False] vs dateVariants_def
        using eight by (intro conjI impI refl) simp_all
    qed
  qed
  have c: "list_all isDigit d \<and> list_all isDigit m \<and> list_all isDigit y \<and>
    d \<noteq> [] \<and> m \<noteq> [] \<and> y \<noteq> [] \<and> isDateSep s1 \<and> isDateSep s2 \<longrightarrow>
      filter (\<lambda>p. length p > 0) (splitEach isPermSep (d @ [s1] @ m @ [s2] @ y)) = [d, m, y]"
    using date_shape_parts [of d m y s1 s2] by blast
  from a b c show ?thesis by (intro conjI)
qed

theorem getDatePermutations_variants_witness:
  "getDatePermutations (js ''2010-4-2'') =
     [js ''02042010'', js ''20100402'', js ''02-04-2010'', js ''2010-04-02'', js ''2010_04_02'',
      js ''2010.04.02'', js ''02_04_2010'', js ''02.04.2010'', js ''02 04 2010''] \<and>
   getDatePermutations (js ''20/04'') = [js ''20/04'']"
proof -
  have p: "filter (\<lambda>p. length p > 0) (splitEach isPermSep (js ''2010-4-2'')) = [js ''2010'', js ''4'', js ''2'']"
    by (simp add: char_class_defs)
  have q: "length (filter (\<lambda>p. length p > 0) (splitEach isPermSep (js ''20/04''))) \<noteq> 3"
    by (simp add: char_class_defs)
  from getDatePermutations_variants [of "js ''2010-4-2''" "js ''2010''" "js ''4''" "js ''2''" "[]" "[]" "[]" 0 0] p
  have "getDatePermutations (js ''2010-4-2'') =
     [js ''02042010'', js ''20100402'', js ''02-04-2010'', js ''2010-04-02'', js ''2010_04_02'',
      js ''2010.04.02'', js ''02_04_2010'', js ''02.04.2010'', js ''02 04 2010'']"
    by (simp add: Let_def padStart2_def js_def)
  moreover from getDatePermutations_variants [of "js ''20/04''" "[]" "[]" "[]" "[]" "[]" "[]" 0 0] q
  have "getDatePermutations (js ''20/04'') = [js ''20/04'']"
    by blast
  ultimately show ?thesis by simp
qed

text \<open>
  The list has no space-separated variant in year-first order, and three parts that are
  not numbers are permuted just the same.
\<close>

theorem getDatePermutations_counterexample:
  "js ''2010 04 20'' \<notin> set (getDatePermutations (js ''20/04/2010'')) \<and>
   getDatePermutations (js ''a/b/c'') \<noteq> [js ''a/b/c'']"
  by (simp add: char_class_defs permutation_defs)

section \<open>Tokenization\<close>

















section \<open>The extension boost\<close>

lemma extensionOf_no_dot: "46 \<notin> set query \<Longrightarrow> extensionOf query = toLowerCase query"
proof -
  assume "46 \<notin> set query"
  then have "\<forall>c \<in> set query. \<not> c = 46" by auto
  then have "splitEach (\<lambda>c. c = 46) query = [query]"
    by (rule splitEach_no_separator)
  then show ?thesis by (simp add: extensionOf_def)
qed

text \<open>
  Claim C10. Let the query contain no dot and share at least one token with the file name.
  If the part of the file name behind its last dot, lower-cased, has more than 2 code units
  and equals the whole lower-cased query, the extension test succeeds and the score of the
  pair holds the 0.20 of the extension boost on top of the base score and of whatever the
  date and the sequence test add.
\<close>

theorem extension_boost_without_dot:
  assumes "46 \<notin> set query"
    and "filter (\<lambda>qt. qt \<in> set (tokenize (name f))) (tokenize query) \<noteq> []"
    and "extensionOf (name f) = toLowerCase query"
    and "length (extensionOf (name f)) > 2"
  shows "extensionMatch query f \<and>
    scoreFile query (tokenize query) dateSearchTerms f =
      Some (baseScore (tokenize query) (tokenize (name f))
            + (if dateMatch dateSearchTerms f then 2 / 5 else 0)
            + 1 / 5
            + (if sequenceMatch query f then 3 / 20 else 0))"
proof -
  have q: "extensionOf query = toLowerCase query"
    using assms(1) by (rule extensionOf_no_dot)
  have ext: "extensionMatch query f"
    using assms(3,4) by (auto simp: extensionMatch_def q)
  from assms(2) have "tokenize (name f) \<noteq> []"
    by (cases "tokenize (name f)") simp_all
  with assms(2) ext show ?thesis
    by (simp add: scoreFile_def)
qed

theorem extension_boost_without_dot_witness:
  "extensionMatch (js ''pdf'') (exNode ''report.pdf'' ''P/report.pdf'') \<and>
   scoreFile (js ''pdf'') (tokenize (js ''pdf'')) [] (exNode ''report.pdf'' ''P/report.pdf'')
     = Some (27 / 20)"
proof -
  let ?f = "exNode ''report.pdf'' ''P/report.pdf''"
  have nm: "name ?f = js ''report.pdf''"
    by (simp add: exNode_def)
  have tq: "tokenize (js ''pdf'') = [js ''pdf'']"
    by (simp add: char_class_defs tokenize_defs)
  have tf: "tokenize (js ''report.pdf'') = [js ''report'', js ''pdf'']"
    by (simp add: char_class_defs tokenize_defs)
  have a: "46 \<notin> set (js ''pdf'')"
    by (simp add: js_def)
  have b: "filter (\<lambda>qt. qt \<in> set (tokenize (name ?f))) (tokenize (js ''pdf'')) \<noteq> []"
    unfolding nm tq tf by (simp add: js_def)
  have c: "extensionOf (name ?f) = toLowerCase (js ''pdf'')"
    by (simp add: nm extensionOf_def toLowerCase_def lowerUnit_def js_def)
  have d: "length (extensionOf (name ?f)) > 2"
    by (simp add: c toLowerCase_def js_def)
  have base: "baseScore (tokenize (js ''pdf'')) (tokenize (name ?f)) = 1"
    unfolding nm tq tf by (simp add: baseScore_def js_def)
  have seq: "sequenceMatch (js ''pdf'') ?f"
    by (simp add: sequenceMatch_def nm toLowerCase_def lowerUnit_def char_class_defs)
  have dt: "\<not> dateMatch [] ?f"
    by (simp add: dateMatch_def)
  from extension_boost_without_dot [OF a b c d, of "[]"] base seq dt
  show ?thesis by simp
qed

end
